theory Spec2Isabelle
  imports Main
begin

section \<open>The gisp reader: tokens, lexer state, parse tree\<close>

text \<open>
  A shallow embedding of \<^verbatim>\<open>gisp.go\<close>: the state-function lexer (\<^verbatim>\<open>lexWhitespace\<close>,
  \<^verbatim>\<open>lexOpenParen\<close>, ...), its driver loop \<^verbatim>\<open>run\<close>, and the recursive reader
  \<^verbatim>\<open>parse\<close>. Go strings are byte sequences, so \<^verbatim>\<open>input\<close> is a \<open>string\<close>
  (a list of 8-bit characters); a rune is an \<open>int\<close>, as Go's \<^verbatim>\<open>int32\<close> rune is, with
  \<^verbatim>\<open>eof = -1\<close>.
\<close>

type_synonym rune = int

type_synonym Pos = nat
  \<comment> \<open>\<^verbatim>\<open>type Pos int\<close>; a position only grows by \<^verbatim>\<open>next\<close> and shrinks by the
      \<^verbatim>\<open>backup\<close> that follows it, so it is never negative (\<open>peek_pos\<close>,
      \<open>acceptRun_loop_pos\<close> and \<open>bounds_lex\<close> below).\<close>

datatype itemType =
    itemError | itemEOF
  | itemLeftParen | itemRightParen | itemLeftVect | itemRightVect
  | itemIdent | itemString | itemChar | itemFloat | itemInt
  | itemQuote | itemQuasiQuote | itemUnquote | itemUnquoteSplice

text \<open>
  Modelled from the spec: the constants \<^verbatim>\<open>_INVALID\<close>, \<^verbatim>\<open>_EOF\<close>, \<^verbatim>\<open>_LPAREN\<close>, ... that the
  state functions pass to \<^verbatim>\<open>emit\<close> and that \<^verbatim>\<open>parse\<close> compares with are not declared in
  the source file. They are the token kinds of the spec's data model (error, end-of-input,
  list-open, list-close, vector-open, vector-close, identifier, string-literal,
  float-literal, integer-literal, quote, quasiquote, unquote, unquote-splice), that is,
  the kinds that \<^verbatim>\<open>itemType\<close> declares; \<^verbatim>\<open>errorf\<close> sends \<^verbatim>\<open>itemError\<close> and \<^verbatim>\<open>parse\<close>
  tests for \<^verbatim>\<open>_INVALID\<close>, so these two name the same kind.
\<close>

abbreviation T_INVALID :: itemType where "T_INVALID \<equiv> itemError"
abbreviation T_EOF :: itemType where "T_EOF \<equiv> itemEOF"
abbreviation T_LPAREN :: itemType where "T_LPAREN \<equiv> itemLeftParen"
abbreviation T_RPAREN :: itemType where "T_RPAREN \<equiv> itemRightParen"
abbreviation T_LVECT :: itemType where "T_LVECT \<equiv> itemLeftVect"
abbreviation T_RVECT :: itemType where "T_RVECT \<equiv> itemRightVect"
abbreviation T_SYMBOL :: itemType where "T_SYMBOL \<equiv> itemIdent"
abbreviation T_STRING :: itemType where "T_STRING \<equiv> itemString"
abbreviation T_FLOAT :: itemType where "T_FLOAT \<equiv> itemFloat"
abbreviation T_INT :: itemType where "T_INT \<equiv> itemInt"
abbreviation T_QUOTE :: itemType where "T_QUOTE \<equiv> itemQuote"
abbreviation T_QUASIQUOTE :: itemType where "T_QUASIQUOTE \<equiv> itemQuasiQuote"
abbreviation T_UNQUOTE :: itemType where "T_UNQUOTE \<equiv> itemUnquote"
abbreviation T_UNQUOTESPLICE :: itemType where "T_UNQUOTESPLICE \<equiv> itemUnquoteSplice"

record item =
  item_typ :: itemType
  item_pos :: Pos
  item_val :: string

definition eof :: rune where
  "eof = -1"

text \<open>The state functions: \<^verbatim>\<open>type stateFn func(*lexer) stateFn\<close>, one name per function;
  the \<^verbatim>\<open>nil\<close> state is \<open>None\<close>.\<close>

datatype stateFn =
    LexOpenVect | LexCloseVect | LexOpenParen | LexCloseParen
  | LexQuote | LexQuasiquote | LexUnquote | LexUnquoteSplice
  | LexWhitespace | LexString | LexInt | LexFloat | LexSymbol | LexComment

text \<open>
  The lexer. The channel (\<^verbatim>\<open>l.items\<close>, written \<^verbatim>\<open>l.tokens\<close> in \<^verbatim>\<open>emit\<close> and \<^verbatim>\<open>errorf\<close>) is the
  list of the items sent so far, oldest first; \<open>items_closed\<close> records \<^verbatim>\<open>close(l.items)\<close>.
\<close>

record lexer =
  name :: string
  input :: string
  state :: "stateFn option"
  pos :: Pos
  start :: Pos
  width :: Pos
  lastPos :: Pos
  items :: "item list"
  items_closed :: bool
  parenDepth :: int
  vectDepth :: int

subsection \<open>The library functions the lexer calls\<close>

definition RuneError :: rune where
  "RuneError = 0xFFFD"

text \<open>
  \<^verbatim>\<open>utf8.DecodeRuneInString\<close>: the first rune of a byte string and its width in bytes.
  A byte below \<^verbatim>\<open>0x80\<close> is its own rune; a malformed or truncated sequence is
  \<^verbatim>\<open>RuneError\<close> of width 1; the empty string is \<^verbatim>\<open>RuneError\<close> of width 0.
\<close>

definition contb :: "char \<Rightarrow> nat \<Rightarrow> nat \<Rightarrow> bool" where
  "contb c lo hi = (lo \<le> (of_char c :: nat) \<and> (of_char c :: nat) \<le> hi)"

definition lowbits :: "char \<Rightarrow> nat \<Rightarrow> int" where
  "lowbits c m = int ((of_char c :: nat) mod m)"

fun DecodeRuneInString :: "string \<Rightarrow> rune \<times> nat" where
  "DecodeRuneInString [] = (RuneError, 0)"
| "DecodeRuneInString (c0 # s) =
    (let s0 = (of_char c0 :: nat) in
     if s0 < 0x80 then (int s0, 1)
     else if s0 < 0xC2 \<or> 0xF4 < s0 then (RuneError, 1)
     else
       let sz = (if s0 < 0xE0 then 2 else if s0 < 0xF0 then 3 else (4::nat));
           lo = (if s0 = 0xE0 then 0xA0 else if s0 = 0xF0 then 0x90 else 0x80);
           hi = (if s0 = 0xED then 0x9F else if s0 = 0xF4 then 0x8F else 0xBF)
       in if length (c0 # s) < sz then (RuneError, 1)
          else if \<not> contb (s ! 0) lo hi then (RuneError, 1)
          else if sz \<le> 2 then (lowbits c0 0x20 * 0x40 + lowbits (s ! 0) 0x40, 2)
          else if \<not> contb (s ! 1) 0x80 0xBF then (RuneError, 1)
          else if sz \<le> 3 then
            (lowbits c0 0x10 * 0x1000 + lowbits (s ! 0) 0x40 * 0x40 + lowbits (s ! 1) 0x40, 3)
          else if \<not> contb (s ! 2) 0x80 0xBF then (RuneError, 1)
          else (lowbits c0 0x08 * 0x40000 + lowbits (s ! 0) 0x40 * 0x1000
                  + lowbits (s ! 1) 0x40 * 0x40 + lowbits (s ! 2) 0x40, 4))"

text \<open>
  \<^verbatim>\<open>unicode.IsDigit\<close>: up to Latin-1 exactly the ten ASCII digits; above it, membership
  in the decimal-digit range table of the \<^verbatim>\<open>unicode\<close> package, which depends on the Go
  release and is therefore the parameter \<open>nd\<close>.
\<close>

definition IsDigit :: "(rune \<Rightarrow> bool) \<Rightarrow> rune \<Rightarrow> bool" where
  "IsDigit nd r = (if r \<le> 0xFF then 0x30 \<le> r \<and> r \<le> 0x39 else nd r)"

text \<open>
  \<^verbatim>\<open>strings.IndexRune(valid, r) >= 0\<close> for the two sets the lexer passes, \<^verbatim>\<open>" "\<close> and
  \<^verbatim>\<open>"0123456789"\<close>: both are ASCII strings, in which a rune occurs exactly when it is the
  code of one of the bytes (no rune from \<^verbatim>\<open>0x80\<close> on, no \<^verbatim>\<open>RuneError\<close> and no \<^verbatim>\<open>eof\<close>
  occurs in them).
\<close>

definition IndexRune_found :: "string \<Rightarrow> rune \<Rightarrow> bool" where
  "IndexRune_found valid r = (0 \<le> r \<and> r < 0x80 \<and> r \<in> set (map (\<lambda>c. int (of_char c)) valid))"

text \<open>
  \<^verbatim>\<open>fmt.Sprintf("%c", r)\<close>: the UTF-8 encoding of the rune; a rune that is negative, a
  surrogate or beyond \<^verbatim>\<open>0x10FFFF\<close> is printed as \<^verbatim>\<open>RuneError\<close>.
\<close>

definition Sprintf_c :: "rune \<Rightarrow> string" where
  "Sprintf_c r0 =
    (let r = (if r0 < 0 \<or> 0x10FFFF < r0 \<or> (0xD800 \<le> r0 \<and> r0 \<le> 0xDFFF) then RuneError else r0) in
     if r < 0x80 then [char_of r]
     else if r < 0x800 then [char_of (0xC0 + r div 0x40), char_of (0x80 + r mod 0x40)]
     else if r < 0x10000 then
       [char_of (0xE0 + r div 0x1000), char_of (0x80 + (r div 0x40) mod 0x40),
        char_of (0x80 + r mod 0x40)]
     else
       [char_of (0xF0 + r div 0x40000), char_of (0x80 + (r div 0x1000) mod 0x40),
        char_of (0x80 + (r div 0x40) mod 0x40), char_of (0x80 + r mod 0x40)])"

subsection \<open>The lexer's methods\<close>

text \<open>\<^verbatim>\<open>next\<close> returns the next rune in the input, mutating \<^verbatim>\<open>pos\<close> and \<^verbatim>\<open>width\<close>.\<close>

definition lexer_next :: "lexer \<Rightarrow> rune \<times> lexer" where
  "lexer_next l =
    (if pos l \<ge> length (input l) then (eof, l\<lparr>width := 0\<rparr>)
     else
       let (r, w) = DecodeRuneInString (drop (pos l) (input l))
       in (r, l\<lparr>width := w, pos := pos l + w\<rparr>))"

definition backup :: "lexer \<Rightarrow> lexer" where
  "backup l = l\<lparr>pos := pos l - width l\<rparr>"

definition peek :: "lexer \<Rightarrow> rune \<times> lexer" where
  "peek l = (let (r, l1) = lexer_next l in (r, backup l1))"

text \<open>\<^verbatim>\<open>emit\<close> sends \<^verbatim>\<open>item{t, l.start, l.input[l.start:l.pos]}\<close>.\<close>

definition emit :: "itemType \<Rightarrow> lexer \<Rightarrow> lexer" where
  "emit t l =
    l\<lparr>items := items l @ [\<lparr>item_typ = t, item_pos = start l,
                             item_val = take (pos l - start l) (drop (start l) (input l))\<rparr>],
      start := pos l\<rparr>"

definition ignore :: "lexer \<Rightarrow> lexer" where
  "ignore l = l\<lparr>start := pos l\<rparr>"

text \<open>\<^verbatim>\<open>acceptRun\<close>: the loop \<^verbatim>\<open>for strings.IndexRune(valid, l.next()) >= 0 {}\<close>, then
  \<^verbatim>\<open>l.backup()\<close>.\<close>

function acceptRun_loop :: "string \<Rightarrow> lexer \<Rightarrow> lexer" where
  "acceptRun_loop valid l =
    (let (r, l1) = lexer_next l in
     if IndexRune_found valid r then acceptRun_loop valid l1 else l1)"
  by pat_completeness auto
termination
proof (relation "measure (\<lambda>(valid, l). length (input l) - pos l)")
  show "wf (measure (\<lambda>(valid, l). length (input l) - pos l))"
    by simp
next
  fix valid :: string and l l1 :: lexer and r :: rune and x
  assume x: "x = lexer_next l" and nx: "(r, l1) = x" and found: "IndexRune_found valid r"
  have nx': "lexer_next l = (r, l1)"
    using x nx by simp
  have "r \<noteq> eof"
    using found by (simp add: IndexRune_found_def eof_def)
  with nx' have inside: "pos l < length (input l)"
    by (auto simp: lexer_next_def split: if_splits)
  then obtain c0 s where ds: "drop (pos l) (input l) = c0 # s"
    by (cases "drop (pos l) (input l)") auto
  have "0 < snd (DecodeRuneInString (c0 # s))"
    by (simp add: Let_def)
  with nx' inside ds have "pos l < pos l1" and "input l1 = input l"
    by (auto simp: lexer_next_def split_beta)
  with inside show "((valid, l1), (valid, l)) \<in> measure (\<lambda>(valid, l). length (input l) - pos l)"
    by simp
qed

definition acceptRun :: "string \<Rightarrow> lexer \<Rightarrow> lexer" where
  "acceptRun valid l = backup (acceptRun_loop valid l)"

text \<open>\<^verbatim>\<open>errorf\<close> sends an error item that carries the formatted message and returns the
  \<^verbatim>\<open>nil\<close> state, which ends \<^verbatim>\<open>run\<close>.\<close>

definition errorf :: "string \<Rightarrow> lexer \<Rightarrow> stateFn option \<times> lexer" where
  "errorf msg l =
    (None, l\<lparr>items := items l @ [\<lparr>item_typ = itemError, item_pos = start l, item_val = msg\<rparr>]\<rparr>)"

subsection \<open>The state functions\<close>

abbreviation ch :: "char \<Rightarrow> rune" where
  "ch c \<equiv> int (of_char c)"

abbreviation SP :: rune where "SP \<equiv> ch CHR '' ''"
abbreviation TAB :: rune where "TAB \<equiv> ch (CHR 0x09)"
abbreviation NL :: rune where "NL \<equiv> ch (CHR 0x0A)"
abbreviation CR :: rune where "CR \<equiv> ch (CHR 0x0D)"
abbreviation SQUOTE :: rune where "SQUOTE \<equiv> ch (CHR 0x27)"
abbreviation DQUOTE :: rune where "DQUOTE \<equiv> ch (CHR 0x22)"
abbreviation BQUOTE :: rune where "BQUOTE \<equiv> ch (CHR 0x60)"
abbreviation BSLASH :: rune where "BSLASH \<equiv> ch (CHR 0x5C)"

definition lexOpenVect :: "(rune \<Rightarrow> bool) \<Rightarrow> lexer \<Rightarrow> stateFn option \<times> lexer" where
  "lexOpenVect nd l =
    (let l1 = emit T_LVECT l;
         l2 = l1\<lparr>vectDepth := vectDepth l1 + 1\<rparr>;
         (r, l3) = lexer_next l2
     in if r = SP \<or> r = TAB \<or> r = NL \<or> r = CR then (Some LexWhitespace, l3)
        else if r = SQUOTE then (Some LexQuote, l3)
        else if r = BQUOTE then (Some LexQuasiquote, l3)
        else if r = ch CHR '','' then (Some LexUnquote, l3)
        else if r = ch CHR ''('' then (Some LexOpenParen, l3)
        else if r = ch CHR '')'' then (Some LexCloseParen, l3)
        else if r = ch CHR ''['' then (Some LexOpenVect, l3)
        else if r = ch CHR '']'' then (Some LexCloseVect, l3)
        else if r = ch CHR '';'' then (Some LexComment, l3)
        else if IsDigit nd r then (Some LexInt, l3)
        else (Some LexSymbol, l3))"

definition lexCloseVect :: "(rune \<Rightarrow> bool) \<Rightarrow> lexer \<Rightarrow> stateFn option \<times> lexer" where
  "lexCloseVect nd l =
    (let l1 = emit T_RVECT l;
         l2 = l1\<lparr>vectDepth := vectDepth l1 - 1\<rparr>
     in if parenDepth l2 < 0 then errorf ''unexpected close paren [vect]'' l2
        else
          let (r, l3) = lexer_next l2
          in if r = SP \<or> r = TAB \<or> r = NL \<or> r = CR then (Some LexWhitespace, l3)
             else if r = SQUOTE then (Some LexQuote, l3)
             else if r = BQUOTE then (Some LexQuasiquote, l3)
             else if r = ch CHR '','' then (Some LexUnquote, l3)
             else if r = ch CHR ''('' then (Some LexOpenParen, l3)
             else if r = ch CHR '')'' then (Some LexCloseParen, l3)
             else if r = ch CHR ''['' then (Some LexOpenVect, l3)
             else if r = ch CHR '']'' then (Some LexCloseVect, l3)
             else if r = ch CHR '';'' then (Some LexComment, l3)
             else if IsDigit nd r then (Some LexInt, l3)
             else (Some LexSymbol, l3))"

definition lexOpenParen :: "(rune \<Rightarrow> bool) \<Rightarrow> lexer \<Rightarrow> stateFn option \<times> lexer" where
  "lexOpenParen nd l =
    (let l1 = emit T_LPAREN l;
         l2 = l1\<lparr>parenDepth := parenDepth l1 + 1\<rparr>;
         (r, l3) = lexer_next l2
     in if r = SP \<or> r = TAB \<or> r = NL \<or> r = CR then (Some LexWhitespace, l3)
        else if r = SQUOTE then (Some LexQuote, l3)
        else if r = BQUOTE then (Some LexQuasiquote, l3)
        else if r = ch CHR '','' then (Some LexUnquote, l3)
        else if r = ch CHR ''('' then (Some LexOpenParen, l3)
        else if r = ch CHR '')'' then (Some LexCloseParen, l3)
        else if r = ch CHR ''['' then (Some LexOpenVect, l3)
        else if r = ch CHR '']'' then (Some LexCloseVect, l3)
        else if r = ch CHR '';'' then (Some LexComment, l3)
        else if IsDigit nd r then (Some LexInt, l3)
        else (Some LexSymbol, l3))"

text \<open>The switch that ends \<^verbatim>\<open>lexQuote\<close>, \<^verbatim>\<open>lexQuasiquote\<close>, \<^verbatim>\<open>lexUnquote\<close> and
  \<^verbatim>\<open>lexUnquoteSplice\<close>, which the source writes out four times, identically.\<close>

definition after_prefix :: "(rune \<Rightarrow> bool) \<Rightarrow> rune \<Rightarrow> stateFn" where
  "after_prefix nd r =
    (if r = DQUOTE then LexString
     else if r = ch CHR ''('' then LexOpenParen
     else if r = ch CHR '')'' then LexCloseParen
     else if r = ch CHR ''['' then LexOpenVect
     else if r = ch CHR '']'' then LexCloseVect
     else if r = SQUOTE then LexQuote
     else if r = BQUOTE then LexQuasiquote
     else if r = ch CHR '','' then LexUnquote
     else if IsDigit nd r then LexInt
     else LexSymbol)"

definition lexQuote :: "(rune \<Rightarrow> bool) \<Rightarrow> lexer \<Rightarrow> stateFn option \<times> lexer" where
  "lexQuote nd l =
    (let l1 = acceptRun '' '' l;
         l2 = ignore l1;
         l3 = emit T_QUOTE l2;
         (r, l4) = lexer_next l3
     in (Some (after_prefix nd r), l4))"

definition lexQuasiquote :: "(rune \<Rightarrow> bool) \<Rightarrow> lexer \<Rightarrow> stateFn option \<times> lexer" where
  "lexQuasiquote nd l =
    (let l1 = acceptRun '' '' l;
         l2 = ignore l1;
         l3 = emit T_QUASIQUOTE l2;
         (r, l4) = lexer_next l3
     in (Some (after_prefix nd r), l4))"

definition lexUnquote :: "(rune \<Rightarrow> bool) \<Rightarrow> lexer \<Rightarrow> stateFn option \<times> lexer" where
  "lexUnquote nd l =
    (let (p, l0) = peek l
     in if p = ch CHR ''@'' then (Some LexUnquoteSplice, l0)
        else
          let l1 = acceptRun '' '' l0;
              l2 = ignore l1;
              l3 = emit T_UNQUOTE l2;
              (r, l4) = lexer_next l3
          in (Some (after_prefix nd r), l4))"

definition lexUnquoteSplice :: "(rune \<Rightarrow> bool) \<Rightarrow> lexer \<Rightarrow> stateFn option \<times> lexer" where
  "lexUnquoteSplice nd l =
    (let (r0, l0) = lexer_next l;
         l1 = acceptRun '' '' l0;
         l2 = ignore l1;
         l3 = emit T_UNQUOTESPLICE l2;
         (r, l4) = lexer_next l3
     in (Some (after_prefix nd r), l4))"

definition lexWhitespace :: "(rune \<Rightarrow> bool) \<Rightarrow> lexer \<Rightarrow> stateFn option \<times> lexer" where
  "lexWhitespace nd l =
    (let l1 = ignore l;
         (r, l2) = lexer_next l1
     in if r = SP \<or> r = TAB \<or> r = NL then (Some LexWhitespace, l2)
        else if r = SQUOTE then (Some LexQuote, l2)
        else if r = BQUOTE then (Some LexQuasiquote, l2)
        else if r = ch CHR '','' then (Some LexUnquote, l2)
        else if r = DQUOTE then (Some LexString, l2)
        else if r = ch CHR ''('' then (Some LexOpenParen, l2)
        else if r = ch CHR '')'' then (Some LexCloseParen, l2)
        else if r = ch CHR ''['' then (Some LexOpenVect, l2)
        else if r = ch CHR '']'' then (Some LexCloseVect, l2)
        else if r = ch CHR '';'' then (Some LexComment, l2)
        else if r = eof then
          (if parenDepth l2 > 0 then errorf ''unclosed paren'' l2
           else (None, emit T_EOF l2))
        else if IsDigit nd r then (Some LexInt, l2)
        else (Some LexSymbol, l2))"

definition lexString :: "lexer \<Rightarrow> stateFn option \<times> lexer" where
  "lexString l =
    (let (r, l1) = lexer_next l
     in if r = DQUOTE then (Some LexWhitespace, emit T_STRING l1)
        else if r = BSLASH then (Some LexString, snd (lexer_next l1))
        else (Some LexString, l1))"

definition lexInt :: "lexer \<Rightarrow> stateFn option \<times> lexer" where
  "lexInt l =
    (let l1 = acceptRun ''0123456789'' l;
         (r, l2) = peek l1
     in if r = SP \<or> r = TAB \<or> r = NL then (Some LexWhitespace, snd (lexer_next (emit T_INT l2)))
        else if r = ch CHR ''.'' then (Some LexFloat, snd (lexer_next l2))
        else if r = ch CHR '')'' then (Some LexCloseParen, snd (lexer_next (emit T_INT l2)))
        else if r = ch CHR '';'' then (Some LexComment, snd (lexer_next (emit T_INT l2)))
        else errorf (''unexpected rune in lexInt: '' @ Sprintf_c r) l2)"

definition lexFloat :: "lexer \<Rightarrow> stateFn option \<times> lexer" where
  "lexFloat l =
    (let l1 = acceptRun ''0123456789'' l;
         l2 = emit T_FLOAT l1;
         (r, l3) = lexer_next l2
     in if r = SP \<or> r = TAB \<or> r = NL then (Some LexWhitespace, l3)
        else if r = ch CHR '')'' then (Some LexCloseParen, l3)
        else if r = ch CHR '';'' then (Some LexComment, l3)
        else errorf (''unexpected run in lexFloat: '' @ Sprintf_c r) l3)"

definition lexSymbol :: "lexer \<Rightarrow> stateFn option \<times> lexer" where
  "lexSymbol l =
    (let (r, l1) = peek l
     in if r = SP \<or> r = TAB \<or> r = NL then (Some LexWhitespace, snd (lexer_next (emit T_SYMBOL l1)))
        else if r = ch CHR '')'' then (Some LexCloseParen, snd (lexer_next (emit T_SYMBOL l1)))
        else if r = ch CHR '';'' then (Some LexComment, snd (lexer_next (emit T_SYMBOL l1)))
        else (Some LexSymbol, snd (lexer_next l1)))"

definition lexCloseParen :: "lexer \<Rightarrow> stateFn option \<times> lexer" where
  "lexCloseParen l =
    (let l1 = emit T_RPAREN l;
         l2 = l1\<lparr>parenDepth := parenDepth l1 - 1\<rparr>
     in if parenDepth l2 < 0 then errorf ''unexpected close paren'' l2
        else
          let (r, l3) = lexer_next l2
          in if r = SP \<or> r = TAB \<or> r = NL then (Some LexWhitespace, l3)
             else if r = ch CHR ''('' then (Some LexOpenParen, l3)
             else if r = ch CHR '')'' then (Some LexCloseParen, l3)
             else if r = ch CHR ''['' then (Some LexOpenVect, l3)
             else if r = ch CHR '']'' then (Some LexCloseVect, l3)
             else if r = ch CHR '';'' then (Some LexComment, l3)
             else errorf ''unimplemented'' l3)"

definition lexComment :: "lexer \<Rightarrow> stateFn option \<times> lexer" where
  "lexComment l =
    (let (r, l1) = lexer_next l
     in if r = NL \<or> r = CR then (Some LexWhitespace, l1)
        else (Some LexComment, l1))"

text \<open>Calling a state function: \<^verbatim>\<open>l.state(l)\<close>.\<close>

fun call :: "(rune \<Rightarrow> bool) \<Rightarrow> stateFn \<Rightarrow> lexer \<Rightarrow> stateFn option \<times> lexer" where
  "call nd LexOpenVect l = lexOpenVect nd l"
| "call nd LexCloseVect l = lexCloseVect nd l"
| "call nd LexOpenParen l = lexOpenParen nd l"
| "call nd LexCloseParen l = lexCloseParen l"
| "call nd LexQuote l = lexQuote nd l"
| "call nd LexQuasiquote l = lexQuasiquote nd l"
| "call nd LexUnquote l = lexUnquote nd l"
| "call nd LexUnquoteSplice l = lexUnquoteSplice nd l"
| "call nd LexWhitespace l = lexWhitespace nd l"
| "call nd LexString l = lexString l"
| "call nd LexInt l = lexInt l"
| "call nd LexFloat l = lexFloat l"
| "call nd LexSymbol l = lexSymbol l"
| "call nd LexComment l = lexComment l"

text \<open>
  \<^verbatim>\<open>run\<close>: \<^verbatim>\<open>for l.state = lexWhitespace; l.state != nil; { l.state = l.state(l) }\<close>, then
  \<^verbatim>\<open>close(l.items)\<close>. The loop need not end, so \<open>run_loop n\<close> makes at most \<open>n\<close> turns of
  it and returns the lexer as it then is: the loop has ended within \<open>n\<close> turns exactly
  when the state of the result is \<open>None\<close>, and only then is the channel closed.
\<close>

definition turn :: "(rune \<Rightarrow> bool) \<Rightarrow> lexer \<Rightarrow> lexer" where
  "turn nd l =
    (case state l of
       None \<Rightarrow> l
     | Some f \<Rightarrow> (let (st, l1) = call nd f l in l1\<lparr>state := st\<rparr>))"

fun run_loop :: "(rune \<Rightarrow> bool) \<Rightarrow> nat \<Rightarrow> lexer \<Rightarrow> lexer" where
  "run_loop nd 0 l = l"
| "run_loop nd (Suc n) l = (if state l = None then l else run_loop nd n (turn nd l))"

definition run :: "(rune \<Rightarrow> bool) \<Rightarrow> nat \<Rightarrow> lexer \<Rightarrow> lexer" where
  "run nd n l =
    (let l1 = run_loop nd n (l\<lparr>state := Some LexWhitespace\<rparr>)
     in if state l1 = None then l1\<lparr>items_closed := True\<rparr> else l1)"

text \<open>\<^verbatim>\<open>lex\<close> builds the lexer and starts \<^verbatim>\<open>run\<close> on it; all fields other than \<^verbatim>\<open>name\<close>,
  \<^verbatim>\<open>input\<close> and the channel have Go's zero value.\<close>

definition new_lexer :: "string \<Rightarrow> string \<Rightarrow> lexer" where
  "new_lexer nm inp =
    \<lparr>name = nm, input = inp, state = None, pos = 0, start = 0, width = 0, lastPos = 0,
     items = [], items_closed = False, parenDepth = 0, vectDepth = 0\<rparr>"

definition lex' :: "(rune \<Rightarrow> bool) \<Rightarrow> nat \<Rightarrow> string \<Rightarrow> string \<Rightarrow> lexer" where
  "lex' nd n nm inp = run nd n (new_lexer nm inp)"

subsection \<open>The reader\<close>

text \<open>
  Modelled from the spec: the type \<^verbatim>\<open>astToken\<close> is used by \<^verbatim>\<open>parse\<close> (fields \<^verbatim>\<open>Type\<close> and
  \<^verbatim>\<open>Value\<close>, both assigned strings) and not declared in the source file; it is the spec's
  atom, "literal text plus a kind tag". An \<^verbatim>\<open>Any\<close> in the tree that \<^verbatim>\<open>parse\<close> builds is
  such a token or a nested \<^verbatim>\<open>[]Any\<close>.
\<close>

record astToken =
  Type :: string
  Value :: string

datatype Any = AstToken astToken | Slice "Any list"

text \<open>
  What \<^verbatim>\<open>parse\<close> can do other than return: panic, or wait on the channel for an item
  that the lexer has not sent (for ever, when the lexer loops without sending).
\<close>

datatype fault = Panic string | Waiting

text \<open>The \<^verbatim>\<open>switch t.typ\<close> of \<^verbatim>\<open>parse\<close>: \<^verbatim>\<open>v.Value = t.val\<close>, and \<^verbatim>\<open>v.Type\<close> is set for four
  kinds and keeps Go's zero value, the empty string, for every other kind.\<close>

definition atom_of :: "item \<Rightarrow> astToken" where
  "atom_of t =
    \<lparr>Type = (case item_typ t of
               itemInt \<Rightarrow> ''INT''
             | itemFloat \<Rightarrow> ''FLOAT''
             | itemString \<Rightarrow> ''STRING''
             | itemIdent \<Rightarrow> ''IDENT''
             | _ \<Rightarrow> []),
     Value = item_val t\<rparr>"

text \<open>
  \<^verbatim>\<open>parse(l, p)\<close>, over the items that the lexer has sent and the reader has not yet
  received (\<open>c\<close> tells whether the channel is closed behind them). The result is the
  returned \<^verbatim>\<open>[]Any\<close> with the items still unreceived. Receiving from the closed, drained
  channel gives Go's zero item, whose type is the zero \<^verbatim>\<open>itemType\<close>, \<^verbatim>\<open>itemError\<close>; the
  \<^verbatim>\<open>for\<close> loop never makes a second turn, since every branch of its body leaves it.
  (\<^verbatim>\<open>nextItem\<close> also stores the position of the received item in \<^verbatim>\<open>lastPos\<close>, which nothing
  reads.)
\<close>

function parse :: "bool \<Rightarrow> item list \<Rightarrow> Any list \<Rightarrow> fault + Any list \<times> item list" where
  "parse c [] p = (if c then Inl (Panic ''syntax error'') else Inl Waiting)"
| "parse c (t # ts) p =
    (if item_typ t = T_EOF then Inr (p, ts)
     else if item_typ t = T_INVALID then Inl (Panic ''syntax error'')
     else if item_typ t = T_LPAREN then
       (case parse c ts [] of
          Inl f \<Rightarrow> Inl f
        | Inr (q, ts') \<Rightarrow> parse c ts' (p @ [Slice q]))
     else if item_typ t = T_RPAREN then Inr (p, ts)
     else parse c ts (p @ [AstToken (atom_of t)]))"
  by pat_completeness auto

termination
proof -
  have consumes: "length rest < length ts"
    if "parse_dom (c, ts, p)" and "parse c ts p = Inr (q, rest)" for c ts p q rest
    using that
  proof (induction c ts p arbitrary: q rest rule: parse.pinduct)
    case (1 c p)
    then show ?case by (simp add: parse.psimps split: if_splits)
  next
    case (2 c t ts p)
    show ?case
    proof (cases "item_typ t = T_LPAREN")
      case True
      with "2.prems" "2.hyps" obtain q1 ts1 where
        inner: "parse c ts [] = Inr (q1, ts1)" and
        outer: "parse c ts1 (p @ [Slice q1]) = Inr (q, rest)"
        by (auto simp: parse.psimps split: sum.splits)
      from True inner have "length ts1 < length ts"
        using "2.IH"(1) [of q1 ts1] by auto
      moreover from True inner outer have "length rest < length ts1"
        using "2.IH"(2) [of "(q1, ts1)" q1 ts1 q rest] by auto
      ultimately show ?thesis by simp
    next
      case False
      show ?thesis
      proof (cases "item_typ t = T_EOF \<or> item_typ t = T_INVALID \<or> item_typ t = T_RPAREN")
        case True
        with "2.prems" "2.hyps" False show ?thesis
          by (auto simp: parse.psimps split: if_splits)
      next
        case other: False
        with "2.prems" "2.hyps" False
        have "parse c ts (p @ [AstToken (atom_of t)]) = Inr (q, rest)"
          by (simp add: parse.psimps)
        with False other have "length rest < length ts"
          using "2.IH"(3) [of q rest] by auto
        then show ?thesis by simp
      qed
    qed
  qed
  show ?thesis
    by (relation "measure (\<lambda>(c, ts, p). length ts)") (auto dest: consumes)
qed

text \<open>
  The two statements of \<^verbatim>\<open>main\<close> (and of \<^verbatim>\<open>args\<close>) that read one chunk:
  \<^verbatim>\<open>l := lex(string(line) + "\n")\<close>, \<^verbatim>\<open>p := parse(l, []Any{})\<close>. The callers pass no name,
  so the lexer's name is empty here. The lexer has made at most \<open>n\<close> turns of its loop;
  \<open>Inl Waiting\<close> then says that the reader needs an item that is not there after \<open>n\<close>
  turns.
\<close>

definition main_parse :: "(rune \<Rightarrow> bool) \<Rightarrow> nat \<Rightarrow> string \<Rightarrow> fault + Any list" where
  "main_parse nd n line =
    (let l = lex' nd n [] (line @ [CHR 0x0A])
     in case parse (items_closed l) (items l) [] of
          Inl f \<Rightarrow> Inl f
        | Inr (p, rest) \<Rightarrow> Inr p)"

subsection \<open>Notions used to state the properties\<close>

text \<open>
  A digit table with no entry above Latin-1, for evaluating the lexer on concrete
  inputs. The inputs evaluated below are ASCII, on which \<open>IsDigit\<close> never consults its
  table; the general theorems hold for every table.
\<close>

definition Nd_none :: "rune \<Rightarrow> bool" where
  "Nd_none r = False"

text \<open>The two kinds of item that end a token sequence.\<close>

definition terminal :: "item \<Rightarrow> bool" where
  "terminal t = (item_typ t = itemError \<or> item_typ t = itemEOF)"

text \<open>
  The bracket structure of a tree, written back as a sequence: a nested \<^verbatim>\<open>[]Any\<close> is an
  opening mark, its elements in order, and a closing mark; an \<^verbatim>\<open>astToken\<close> is itself.
  \<open>shape_of\<close> reads an item the way \<^verbatim>\<open>parse\<close> does: a left paren opens, a right paren
  or an end-of-input closes, every other item is an atom.
\<close>

datatype shape = Open | Close | Leaf astToken

fun unparse :: "Any \<Rightarrow> shape list" where
  "unparse (AstToken v) = [Leaf v]"
| "unparse (Slice xs) = Open # concat (map unparse xs) @ [Close]"

definition shape_of :: "item \<Rightarrow> shape" where
  "shape_of t =
    (if item_typ t = T_LPAREN then Open
     else if item_typ t = T_RPAREN \<or> item_typ t = T_EOF then Close
     else Leaf (atom_of t))"

text \<open>
  What one call of a state function may add to the channel: \<open>fresh\<close> are the items it
  sent, and \<open>step_ok\<close> says that the items sent before are untouched, that a call which
  returns a state sent no terminal item, and that a call which returns \<^verbatim>\<open>nil\<close> sent a
  terminal item last and none before it; it also says that the call leaves the input and
  the channel's closedness alone, and that from a non-negative paren depth it returns a
  state with a non-negative paren depth, or ends with an end-of-input item only at paren
  depth zero. \<open>inv_items\<close> is the resulting invariant of the loop of \<^verbatim>\<open>run\<close>.
\<close>

definition fresh :: "lexer \<Rightarrow> stateFn option \<times> lexer \<Rightarrow> item list" where
  "fresh l res = drop (length (items l)) (items (snd res))"

definition step_ok :: "lexer \<Rightarrow> stateFn option \<times> lexer \<Rightarrow> bool" where
  "step_ok l res =
    (take (length (items l)) (items (snd res)) = items l \<and>
     items_closed (snd res) = items_closed l \<and>
     input (snd res) = input l \<and>
     (case fst res of
        Some f \<Rightarrow> list_all (\<lambda>t. \<not> terminal t) (fresh l res)
      | None \<Rightarrow> fresh l res \<noteq> [] \<and> terminal (last (fresh l res)) \<and>
                list_all (\<lambda>t. \<not> terminal t) (butlast (fresh l res))) \<and>
     (0 \<le> parenDepth l \<longrightarrow>
        (case fst res of
           Some f \<Rightarrow> 0 \<le> parenDepth (snd res)
         | None \<Rightarrow> item_typ (last (items (snd res))) = itemEOF \<longrightarrow> parenDepth (snd res) = 0)))"

definition inv_items :: "lexer \<Rightarrow> bool" where
  "inv_items l =
    (list_all (\<lambda>t. \<not> terminal t) (butlast (items l)) \<and>
     (state l \<noteq> None \<longrightarrow> list_all (\<lambda>t. \<not> terminal t) (items l)))"

text \<open>The paren depth along a run: never negative while the loop runs, and zero when
  the loop has ended with an end-of-input item.\<close>

definition inv_paren :: "lexer \<Rightarrow> bool" where
  "inv_paren l =
    ((state l \<noteq> None \<longrightarrow> 0 \<le> parenDepth l) \<and>
     (state l = None \<and> items l \<noteq> [] \<and> item_typ (last (items l)) = itemEOF \<longrightarrow> parenDepth l = 0))"

text \<open>
  The positions along a run. \<^verbatim>\<open>emit\<close> slices \<^verbatim>\<open>l.input[l.start:l.pos]\<close>, which panics in
  Go unless \<open>start \<le> pos \<le> len(input)\<close>; \<open>bounds\<close> holds whenever a state function is
  called (\<open>bounds_lex\<close> below) and is kept by every method, so the slice is always in
  range, and \<^verbatim>\<open>backup\<close> never steps below zero.
\<close>

definition bounds :: "lexer \<Rightarrow> bool" where
  "bounds l = (start l \<le> pos l \<and> pos l \<le> length (input l))"

section \<open>Properties of the lexer\<close>

subsection \<open>The items sent by each state function\<close>

declare acceptRun_loop.simps [simp del]

lemma frame_lexer_next [simp]:
  "items (snd (lexer_next l)) = items l"
  "items_closed (snd (lexer_next l)) = items_closed l"
  "parenDepth (snd (lexer_next l)) = parenDepth l"
  "vectDepth (snd (lexer_next l)) = vectDepth l"
  "input (snd (lexer_next l)) = input l"
  "start (snd (lexer_next l)) = start l"
  by (simp_all add: lexer_next_def split_beta)

lemma frame_backup [simp]:
  "items (backup l) = items l"
  "items_closed (backup l) = items_closed l"
  "parenDepth (backup l) = parenDepth l"
  "vectDepth (backup l) = vectDepth l"
  "input (backup l) = input l"
  "start (backup l) = start l"
  by (simp_all add: backup_def)

lemma frame_peek [simp]:
  "items (snd (peek l)) = items l"
  "items_closed (snd (peek l)) = items_closed l"
  "parenDepth (snd (peek l)) = parenDepth l"
  "vectDepth (snd (peek l)) = vectDepth l"
  "input (snd (peek l)) = input l"
  "start (snd (peek l)) = start l"
  by (simp_all add: peek_def split_beta)

lemma frame_ignore [simp]:
  "items (ignore l) = items l"
  "items_closed (ignore l) = items_closed l"
  "parenDepth (ignore l) = parenDepth l"
  "vectDepth (ignore l) = vectDepth l"
  "input (ignore l) = input l"
  "pos (ignore l) = pos l"
  by (simp_all add: ignore_def)

lemma frame_emit [simp]:
  "items (emit t l) =
     items l @ [\<lparr>item_typ = t, item_pos = start l,
                 item_val = take (pos l - start l) (drop (start l) (input l))\<rparr>]"
  "items_closed (emit t l) = items_closed l"
  "parenDepth (emit t l) = parenDepth l"
  "vectDepth (emit t l) = vectDepth l"
  "input (emit t l) = input l"
  "pos (emit t l) = pos l"
  by (simp_all add: emit_def)

lemma frame_acceptRun_loop:
  "items (acceptRun_loop valid l) = items l \<and>
   items_closed (acceptRun_loop valid l) = items_closed l \<and>
   parenDepth (acceptRun_loop valid l) = parenDepth l \<and>
   vectDepth (acceptRun_loop valid l) = vectDepth l \<and>
   input (acceptRun_loop valid l) = input l \<and>
   start (acceptRun_loop valid l) = start l"
proof (induction valid l rule: acceptRun_loop.induct)
  case (1 valid l)
  have "items (acceptRun_loop valid (snd (lexer_next l))) = items l \<and>
      items_closed (acceptRun_loop valid (snd (lexer_next l))) = items_closed l \<and>
      parenDepth (acceptRun_loop valid (snd (lexer_next l))) = parenDepth l \<and>
      vectDepth (acceptRun_loop valid (snd (lexer_next l))) = vectDepth l \<and>
      input (acceptRun_loop valid (snd (lexer_next l))) = input l \<and>
      start (acceptRun_loop valid (snd (lexer_next l))) = start l"
    if "IndexRune_found valid (fst (lexer_next l))"
    using 1 [of "lexer_next l" "fst (lexer_next l)" "snd (lexer_next l)"] that by simp
  then show ?case
    by (subst (1 2 3 4 5 6) acceptRun_loop.simps) (simp add: split_beta)
qed

lemma frame_acceptRun [simp]:
  "items (acceptRun valid l) = items l"
  "items_closed (acceptRun valid l) = items_closed l"
  "parenDepth (acceptRun valid l) = parenDepth l"
  "vectDepth (acceptRun valid l) = vectDepth l"
  "input (acceptRun valid l) = input l"
  "start (acceptRun valid l) = start l"
  by (simp_all add: acceptRun_def frame_acceptRun_loop)

lemma step_ok_lexOpenVect: "step_ok l (lexOpenVect nd l)"
  by (simp add: step_ok_def fresh_def lexOpenVect_def Let_def split_beta terminal_def)

lemma step_ok_lexCloseVect: "step_ok l (lexCloseVect nd l)"
  by (simp add: step_ok_def fresh_def lexCloseVect_def Let_def split_beta terminal_def errorf_def)

lemma step_ok_lexOpenParen: "step_ok l (lexOpenParen nd l)"
  by (simp add: step_ok_def fresh_def lexOpenParen_def Let_def split_beta terminal_def)

lemma step_ok_lexQuote: "step_ok l (lexQuote nd l)"
  by (simp add: step_ok_def fresh_def lexQuote_def Let_def split_beta terminal_def)

lemma step_ok_lexQuasiquote: "step_ok l (lexQuasiquote nd l)"
  by (simp add: step_ok_def fresh_def lexQuasiquote_def Let_def split_beta terminal_def)

lemma step_ok_lexUnquote: "step_ok l (lexUnquote nd l)"
  by (simp add: step_ok_def fresh_def lexUnquote_def Let_def split_beta terminal_def)

lemma step_ok_lexUnquoteSplice: "step_ok l (lexUnquoteSplice nd l)"
  by (simp add: step_ok_def fresh_def lexUnquoteSplice_def Let_def split_beta terminal_def)

lemma step_ok_lexWhitespace: "step_ok l (lexWhitespace nd l)"
  by (simp add: step_ok_def fresh_def lexWhitespace_def Let_def split_beta terminal_def errorf_def)

lemma step_ok_lexString: "step_ok l (lexString l)"
  by (simp add: step_ok_def fresh_def lexString_def Let_def split_beta terminal_def)

lemma step_ok_lexInt: "step_ok l (lexInt l)"
  by (simp add: step_ok_def fresh_def lexInt_def Let_def split_beta terminal_def errorf_def)

lemma step_ok_lexFloat: "step_ok l (lexFloat l)"
  by (simp add: step_ok_def fresh_def lexFloat_def Let_def split_beta terminal_def errorf_def)

lemma step_ok_lexSymbol: "step_ok l (lexSymbol l)"
  by (simp add: step_ok_def fresh_def lexSymbol_def Let_def split_beta terminal_def)

lemma step_ok_lexCloseParen: "step_ok l (lexCloseParen l)"
  by (simp add: step_ok_def fresh_def lexCloseParen_def Let_def split_beta terminal_def errorf_def)

lemma step_ok_lexComment: "step_ok l (lexComment l)"
  by (simp add: step_ok_def fresh_def lexComment_def Let_def split_beta terminal_def)

lemma step_ok_call: "step_ok l (call nd f l)"
  by (cases f)
     (simp_all add: step_ok_lexOpenVect step_ok_lexCloseVect step_ok_lexOpenParen
        step_ok_lexCloseParen step_ok_lexQuote step_ok_lexQuasiquote step_ok_lexUnquote
        step_ok_lexUnquoteSplice step_ok_lexWhitespace step_ok_lexString step_ok_lexInt
        step_ok_lexFloat step_ok_lexSymbol step_ok_lexComment)


subsection \<open>The invariant of \<^verbatim>\<open>run\<close>\<close>

lemma step_ok_append:
  assumes "step_ok l res"
  shows "items (snd res) = items l @ fresh l res"
proof -
  have "items (snd res) =
      take (length (items l)) (items (snd res)) @ drop (length (items l)) (items (snd res))"
    by simp
  with assms show ?thesis
    by (simp add: step_ok_def fresh_def)
qed

lemma list_all_butlast: "list_all P xs \<Longrightarrow> list_all P (butlast xs)"
  by (induction xs) simp_all

lemma inv_items_turn:
  assumes "inv_items l"
  shows "inv_items (turn nd l)"
proof (cases "state l")
  case None
  with assms show ?thesis by (simp add: turn_def)
next
  case (Some f)
  obtain st l1 where c: "call nd f l = (st, l1)"
    by (cases "call nd f l")
  have ok: "step_ok l (st, l1)"
    using step_ok_call [of l nd f] c by simp
  have app: "items l1 = items l @ fresh l (st, l1)"
    using step_ok_append [OF ok] by simp
  have old: "list_all (\<lambda>t. \<not> terminal t) (items l)"
    using assms Some by (simp add: inv_items_def)
  have t: "turn nd l = l1\<lparr>state := st\<rparr>"
    using Some c by (simp add: turn_def)
  show ?thesis
  proof (cases st)
    case None
    with ok have "fresh l (st, l1) \<noteq> []"
      and "list_all (\<lambda>t. \<not> terminal t) (butlast (fresh l (st, l1)))"
      by (simp_all add: step_ok_def)
    with old app have "list_all (\<lambda>t. \<not> terminal t) (butlast (items l1))"
      by (simp add: butlast_append)
    with None t show ?thesis by (simp add: inv_items_def)
  next
    case (Some g)
    with ok have "list_all (\<lambda>t. \<not> terminal t) (fresh l (st, l1))"
      by (simp add: step_ok_def)
    with old app have "list_all (\<lambda>t. \<not> terminal t) (items l1)"
      by simp
    with t show ?thesis by (simp add: inv_items_def list_all_butlast)
  qed
qed

lemma inv_items_run_loop: "inv_items l \<Longrightarrow> inv_items (run_loop nd n l)"
  by (induction n arbitrary: l) (simp_all add: inv_items_turn)

lemma run_loop_None: "state l = None \<Longrightarrow> run_loop nd n l = l"
  by (cases n) simp_all

lemma run_loop_add: "run_loop nd (n + m) l = run_loop nd m (run_loop nd n l)"
proof (induction n arbitrary: l)
  case 0
  show ?case by simp
next
  case (Suc n)
  show ?case
  proof (cases "state l")
    case None
    then have "run_loop nd (Suc n + m) l = l" and "run_loop nd (Suc n) l = l"
      and "run_loop nd m l = l"
      by (rule run_loop_None)+
    then show ?thesis by simp
  next
    case (Some f)
    with Suc show ?thesis by simp
  qed
qed

lemma items_run: "items (run nd n l) = items (run_loop nd n (l\<lparr>state := Some LexWhitespace\<rparr>))"
  by (simp add: run_def Let_def)

lemma state_run: "state (run nd n l) = state (run_loop nd n (l\<lparr>state := Some LexWhitespace\<rparr>))"
  by (simp add: run_def Let_def)

lemma inv_items_lex: "inv_items (lex' nd n nm inp)"
proof -
  have "inv_items ((new_lexer nm inp)\<lparr>state := Some LexWhitespace\<rparr>)"
    by (simp add: inv_items_def new_lexer_def)
  then have "inv_items (run_loop nd n ((new_lexer nm inp)\<lparr>state := Some LexWhitespace\<rparr>))"
    by (rule inv_items_run_loop)
  then show ?thesis
    by (simp add: inv_items_def lex'_def items_run state_run)
qed

lemma terminal_only_last:
  assumes "inv_items l" and "i < length (items l)" and "terminal (items l ! i)"
  shows "Suc i = length (items l) \<and> state l = None"
proof -
  have none: "state l = None"
  proof (rule ccontr)
    assume "state l \<noteq> None"
    with assms(1) have "list_all (\<lambda>t. \<not> terminal t) (items l)"
      by (simp add: inv_items_def)
    with assms(2,3) show False
      by (simp add: list_all_length)
  qed
  from assms(1) have bl: "list_all (\<lambda>t. \<not> terminal t) (butlast (items l))"
    by (simp add: inv_items_def)
  have "\<not> i < length (butlast (items l))"
  proof
    assume lt: "i < length (butlast (items l))"
    with bl have "\<not> terminal (butlast (items l) ! i)"
      by (simp add: list_all_length)
    with lt assms(3) show False
      by (simp add: nth_butlast)
  qed
  with assms(2) have "Suc i = length (items l)" by simp
  with none show ?thesis by simp
qed


lemma items_turn_grow: "\<exists>new. items (turn nd l) = items l @ new"
proof (cases "state l")
  case None
  then show ?thesis by (simp add: turn_def)
next
  case (Some f)
  have "items (snd (call nd f l)) = items l @ fresh l (call nd f l)"
    using step_ok_call by (rule step_ok_append)
  with Some show ?thesis by (simp add: turn_def split_beta)
qed

lemma items_run_loop_grow: "\<exists>new. items (run_loop nd n l) = items l @ new"
proof (induction n arbitrary: l)
  case 0
  show ?case by simp
next
  case (Suc n)
  obtain new1 where "items (turn nd l) = items l @ new1"
    using items_turn_grow by blast
  moreover obtain new2 where "items (run_loop nd n (turn nd l)) = items (turn nd l) @ new2"
    using Suc by blast
  ultimately show ?case by simp
qed

lemma turn_frame: "items_closed (turn nd l) = items_closed l \<and> input (turn nd l) = input l"
proof (cases "state l")
  case None
  then show ?thesis by (simp add: turn_def)
next
  case (Some f)
  have "step_ok l (call nd f l)" by (rule step_ok_call)
  with Some show ?thesis by (simp add: turn_def split_beta step_ok_def)
qed

lemma run_loop_frame:
  "items_closed (run_loop nd n l) = items_closed l \<and> input (run_loop nd n l) = input l"
  by (induction n arbitrary: l) (simp_all add: turn_frame)

lemma inv_paren_turn:
  assumes "inv_paren l"
  shows "inv_paren (turn nd l)"
proof (cases "state l")
  case None
  with assms show ?thesis by (simp add: turn_def)
next
  case (Some f)
  obtain st l1 where c: "call nd f l = (st, l1)"
    by (cases "call nd f l")
  have ok: "step_ok l (st, l1)"
    using step_ok_call [of l nd f] c by simp
  have nonneg: "0 \<le> parenDepth l"
    using assms Some by (simp add: inv_paren_def)
  have t: "turn nd l = l1\<lparr>state := st\<rparr>"
    using Some c by (simp add: turn_def)
  show ?thesis
    using ok nonneg t by (cases st) (simp_all add: inv_paren_def step_ok_def)
qed

lemma inv_paren_run_loop: "inv_paren l \<Longrightarrow> inv_paren (run_loop nd n l)"
  by (induction n arbitrary: l) (simp_all add: inv_paren_turn)

lemma eof_at_paren_depth_zero:
  assumes "items (lex' nd n nm inp) \<noteq> []"
    and "item_typ (last (items (lex' nd n nm inp))) = itemEOF"
  shows "parenDepth (lex' nd n nm inp) = 0 \<and> state (lex' nd n nm inp) = None"
proof -
  let ?l = "run_loop nd n ((new_lexer nm inp)\<lparr>state := Some LexWhitespace\<rparr>)"
  have i: "items (lex' nd n nm inp) = items ?l" and s: "state (lex' nd n nm inp) = state ?l"
    and p: "parenDepth (lex' nd n nm inp) = parenDepth ?l"
    by (simp_all add: lex'_def run_def Let_def)
  have "inv_paren ((new_lexer nm inp)\<lparr>state := Some LexWhitespace\<rparr>)"
    by (simp add: inv_paren_def new_lexer_def)
  then have ip: "inv_paren ?l" by (rule inv_paren_run_loop)
  have "terminal (items (lex' nd n nm inp) ! (length (items (lex' nd n nm inp)) - 1))"
    using assms by (simp add: terminal_def last_conv_nth)
  with assms(1) have "state (lex' nd n nm inp) = None"
    using terminal_only_last [OF inv_items_lex, of "length (items (lex' nd n nm inp)) - 1" nd n nm inp]
    by simp
  with ip assms i s p show ?thesis by (simp add: inv_paren_def)
qed

subsection \<open>Positions stay in range\<close>

lemma DecodeRuneInString_width_le: "snd (DecodeRuneInString s) \<le> length s"
  by (cases s) (auto simp: Let_def Suc_le_eq)

lemma lexer_next_pos:
  "pos l \<le> length (input l) \<Longrightarrow>
     pos (snd (lexer_next l)) = pos l + width (snd (lexer_next l)) \<and>
     pos (snd (lexer_next l)) \<le> length (input l)"
  using DecodeRuneInString_width_le [of "drop (pos l) (input l)"]
  by (auto simp: lexer_next_def split_beta)

lemma bounds_next [simp]: "bounds l \<Longrightarrow> bounds (snd (lexer_next l))"
  using lexer_next_pos [of l] by (simp add: bounds_def)

lemma peek_pos: "pos l \<le> length (input l) \<Longrightarrow> pos (snd (peek l)) = pos l"
  using lexer_next_pos [of l] by (simp add: peek_def split_beta backup_def)

lemma bounds_peek [simp]: "bounds l \<Longrightarrow> bounds (snd (peek l))"
  using peek_pos [of l] by (simp add: bounds_def)

lemma bounds_emit [simp]: "bounds l \<Longrightarrow> bounds (emit t l)"
  by (simp add: bounds_def emit_def)

lemma bounds_ignore [simp]: "bounds l \<Longrightarrow> bounds (ignore l)"
  by (simp add: bounds_def ignore_def)

lemma bounds_depth [simp]:
  "bounds (l\<lparr>parenDepth := d\<rparr>) = bounds l"
  "bounds (l\<lparr>vectDepth := d\<rparr>) = bounds l"
  "bounds (l\<lparr>items := its\<rparr>) = bounds l"
  by (simp_all add: bounds_def)

lemma acceptRun_loop_pos:
  "pos l \<le> length (input l) \<Longrightarrow>
     pos l + width (acceptRun_loop valid l) \<le> pos (acceptRun_loop valid l) \<and>
     pos (acceptRun_loop valid l) \<le> length (input l)"
proof (induction valid l rule: acceptRun_loop.induct)
  case (1 valid l)
  note nx = lexer_next_pos [OF "1.prems"]
  show ?case
  proof (cases "IndexRune_found valid (fst (lexer_next l))")
    case True
    have "pos (snd (lexer_next l)) + width (acceptRun_loop valid (snd (lexer_next l)))
          \<le> pos (acceptRun_loop valid (snd (lexer_next l))) \<and>
        pos (acceptRun_loop valid (snd (lexer_next l))) \<le> length (input (snd (lexer_next l)))"
      using "1.IH" [of "lexer_next l" "fst (lexer_next l)" "snd (lexer_next l)"] True nx
      by simp
    with True nx show ?thesis
      by (subst (1 2 3) acceptRun_loop.simps) (simp add: split_beta)
  next
    case False
    with nx show ?thesis
      by (subst (1 2 3) acceptRun_loop.simps) (simp add: split_beta)
  qed
qed

lemma bounds_acceptRun [simp]: "bounds l \<Longrightarrow> bounds (acceptRun valid l)"
  using acceptRun_loop_pos [of l valid]
  by (auto simp: bounds_def acceptRun_def backup_def frame_acceptRun_loop)

lemma bounds_errorf [simp]: "bounds l \<Longrightarrow> bounds (snd (errorf msg l))"
  by (simp add: errorf_def)

lemma bounds_call: "bounds l \<Longrightarrow> bounds (snd (call nd f l))"
  by (cases f)
     (simp_all add: lexOpenVect_def lexCloseVect_def lexOpenParen_def lexCloseParen_def
        lexQuote_def lexQuasiquote_def lexUnquote_def lexUnquoteSplice_def lexWhitespace_def
        lexString_def lexInt_def lexFloat_def lexSymbol_def lexComment_def Let_def split_beta)

lemma bounds_turn: "bounds l \<Longrightarrow> bounds (turn nd l)"
  using bounds_call [of l nd]
  by (cases "state l") (simp_all add: turn_def split_beta bounds_def)

lemma bounds_run_loop: "bounds l \<Longrightarrow> bounds (run_loop nd n l)"
  by (induction n arbitrary: l) (simp_all add: bounds_turn)

lemma bounds_lex: "bounds (lex' nd n nm inp)"
proof -
  have "bounds ((new_lexer nm inp)\<lparr>state := Some LexWhitespace\<rparr>)"
    by (simp add: bounds_def new_lexer_def)
  then have "bounds (run_loop nd n ((new_lexer nm inp)\<lparr>state := Some LexWhitespace\<rparr>))"
    by (rule bounds_run_loop)
  then show ?thesis
    by (simp add: lex'_def run_def Let_def bounds_def)
qed


subsection \<open>The states that never leave the end of the input\<close>

text \<open>
  At the end of the input \<^verbatim>\<open>next\<close> returns \<^verbatim>\<open>eof\<close>, which \<^verbatim>\<open>lexString\<close>, \<^verbatim>\<open>lexComment\<close> and
  \<^verbatim>\<open>lexSymbol\<close> treat like any other rune: each returns itself and sends nothing, so the loop
  of \<^verbatim>\<open>run\<close> stays in that state for ever.
\<close>

lemma lexer_next_eof: "length (input l) \<le> pos l \<Longrightarrow> lexer_next l = (eof, l\<lparr>width := 0\<rparr>)"
  by (simp add: lexer_next_def)

lemma lexString_eof:
  "length (input l) \<le> pos l \<Longrightarrow> lexString l = (Some LexString, l\<lparr>width := 0\<rparr>)"
  by (simp add: lexString_def lexer_next_eof eof_def)

lemma lexComment_eof:
  "length (input l) \<le> pos l \<Longrightarrow> lexComment l = (Some LexComment, l\<lparr>width := 0\<rparr>)"
  by (simp add: lexComment_def lexer_next_eof eof_def)

lemma lexSymbol_eof:
  "length (input l) \<le> pos l \<Longrightarrow> lexSymbol l = (Some LexSymbol, l\<lparr>width := 0\<rparr>)"
  by (simp add: lexSymbol_def peek_def backup_def lexer_next_eof eof_def)

lemma turn_stuck:
  assumes "state l = Some f" and "f = LexString \<or> f = LexComment \<or> f = LexSymbol"
    and "length (input l) \<le> pos l"
  shows "turn nd l = l\<lparr>width := 0\<rparr>"
  using assms by (auto simp: turn_def lexString_eof lexComment_eof lexSymbol_eof)

lemma run_loop_stuck:
  assumes "state l = Some f" and "f = LexString \<or> f = LexComment \<or> f = LexSymbol"
    and "length (input l) \<le> pos l"
  shows "state (run_loop nd n l) = Some f \<and> items (run_loop nd n l) = items l"
  using assms
proof (induction n arbitrary: l)
  case 0
  then show ?case by simp
next
  case (Suc n)
  have "state (run_loop nd n (l\<lparr>width := 0\<rparr>)) = Some f \<and>
      items (run_loop nd n (l\<lparr>width := 0\<rparr>)) = items (l\<lparr>width := 0\<rparr>)"
    using Suc.prems by (intro Suc.IH) simp_all
  with Suc.prems show ?case
    by (simp add: turn_stuck [of l f])
qed

lemma reach_stuck:
  assumes "state (run_loop nd k l) = Some f" and "f = LexString \<or> f = LexComment \<or> f = LexSymbol"
    and "length (input (run_loop nd k l)) \<le> pos (run_loop nd k l)"
  shows "state (run_loop nd (k + m) l) = Some f \<and> items (run_loop nd (k + m) l) = items (run_loop nd k l)"
  using run_loop_stuck [OF assms, of nd m] by (simp add: run_loop_add)

lemma state_None_later:
  assumes "state (run_loop nd n l) = None"
  shows "state (run_loop nd (n + m) l) = None"
  using assms by (simp add: run_loop_add run_loop_None)

lemma never_ends:
  assumes "state (run_loop nd k l) = Some f" and "f = LexString \<or> f = LexComment \<or> f = LexSymbol"
    and "length (input (run_loop nd k l)) \<le> pos (run_loop nd k l)"
    and "items (run_loop nd k l) = []"
  shows "state (run_loop nd n l) \<noteq> None \<and> items (run_loop nd n l) = []"
proof (cases "k \<le> n")
  case True
  then obtain m where "n = k + m" using le_Suc_ex by blast
  with reach_stuck [OF assms(1-3), of m] assms(4) show ?thesis by simp
next
  case False
  then obtain m where k: "k = n + m" using le_Suc_ex [of n k] by auto
  have st: "state (run_loop nd n l) \<noteq> None"
  proof
    assume "state (run_loop nd n l) = None"
    then have "state (run_loop nd (n + m) l) = None" by (rule state_None_later)
    with assms(1) k show False by simp
  qed
  obtain new where "items (run_loop nd m (run_loop nd n l)) = items (run_loop nd n l) @ new"
    using items_run_loop_grow by blast
  with assms(4) k have "items (run_loop nd n l) = []"
    by (simp add: run_loop_add)
  with st show ?thesis by simp
qed

lemma run_loop_Suc_turn: "run_loop nd (Suc n) l = turn nd (run_loop nd n l)"
proof -
  have "run_loop nd (n + 1) l = run_loop nd 1 (run_loop nd n l)"
    by (rule run_loop_add)
  then show ?thesis
    by (simp add: turn_def)
qed

lemma lexer_next_cong:
  "pos l' = pos l \<Longrightarrow> input l' = input l \<Longrightarrow> fst (lexer_next l') = fst (lexer_next l)"
  by (simp add: lexer_next_def split_beta)

lemma start_emit [simp]: "start (emit t l) = pos l"
  by (simp add: emit_def)


section \<open>The claims about the tokenizer\<close>

lemma lex_never_ends:
  assumes "state (run_loop nd k ((new_lexer nm inp)\<lparr>state := Some LexWhitespace\<rparr>)) = Some f"
    and "f = LexString \<or> f = LexComment \<or> f = LexSymbol"
    and "length (input (run_loop nd k ((new_lexer nm inp)\<lparr>state := Some LexWhitespace\<rparr>)))
          \<le> pos (run_loop nd k ((new_lexer nm inp)\<lparr>state := Some LexWhitespace\<rparr>))"
    and "items (run_loop nd k ((new_lexer nm inp)\<lparr>state := Some LexWhitespace\<rparr>)) = []"
  shows "state (lex' nd n nm inp) \<noteq> None \<and> items (lex' nd n nm inp) = [] \<and>
         \<not> items_closed (lex' nd n nm inp)"
proof -
  let ?l = "(new_lexer nm inp)\<lparr>state := Some LexWhitespace\<rparr>"
  have r: "state (run_loop nd n ?l) \<noteq> None \<and> items (run_loop nd n ?l) = []"
    using assms by (rule never_ends)
  then have "state (lex' nd n nm inp) \<noteq> None \<and> items (lex' nd n nm inp) = []"
    by (simp add: lex'_def items_run state_run)
  moreover have "\<not> items_closed (lex' nd n nm inp)"
    using r by (simp add: lex'_def run_def Let_def run_loop_frame new_lexer_def)
  ultimately show ?thesis by simp
qed

text \<open>
  C2 (the code at the failing input). On the line \<^verbatim>\<open>"abc\<close>, an unterminated string
  literal, tokenization does not terminate: for every number \<open>n\<close> of turns of the loop of
  \<^verbatim>\<open>run\<close> and every digit table the state is not \<^verbatim>\<open>nil\<close> and no item has been sent, neither
  an end-of-input nor an error item, and the reader waits on the channel for ever. The
  same holds when \<^verbatim>\<open>lex\<close> is given a text that ends inside a symbol (\<^verbatim>\<open>ab\<close>) or inside a
  comment (\<^verbatim>\<open>;c\<close>) with no newline behind it.
\<close>

theorem unterminated_string_never_ends:
  "state (lex' nd n [] (CHR 0x22 # ''abc'' @ [CHR 0x0A])) \<noteq> None \<and>
   items (lex' nd n [] (CHR 0x22 # ''abc'' @ [CHR 0x0A])) = [] \<and>
   main_parse nd n (CHR 0x22 # ''abc'') = Inl Waiting \<and>
   state (lex' nd n [] ''ab'') \<noteq> None \<and> items (lex' nd n [] ''ab'') = [] \<and>
   state (lex' nd n [] '';c'') \<noteq> None \<and> items (lex' nd n [] '';c'') = []"
proof -
  let ?s = "(new_lexer [] (CHR 0x22 # ''abc'' @ [CHR 0x0A]))\<lparr>state := Some LexWhitespace\<rparr>"
  have "state (run_loop nd 5 ?s) = Some LexString"
    and "length (input (run_loop nd 5 ?s)) \<le> pos (run_loop nd 5 ?s)"
    and "items (run_loop nd 5 ?s) = []"
    by code_simp+
  then have str: "state (lex' nd n [] (CHR 0x22 # ''abc'' @ [CHR 0x0A])) \<noteq> None \<and>
      items (lex' nd n [] (CHR 0x22 # ''abc'' @ [CHR 0x0A])) = [] \<and>
      \<not> items_closed (lex' nd n [] (CHR 0x22 # ''abc'' @ [CHR 0x0A]))"
    by (intro lex_never_ends [where f = LexString and k = 5]) simp_all
  then have waits: "main_parse nd n (CHR 0x22 # ''abc'') = Inl Waiting"
    by (simp add: main_parse_def Let_def)
  let ?y = "(new_lexer [] ''ab'')\<lparr>state := Some LexWhitespace\<rparr>"
  have "state (run_loop nd 2 ?y) = Some LexSymbol"
    and "length (input (run_loop nd 2 ?y)) \<le> pos (run_loop nd 2 ?y)"
    and "items (run_loop nd 2 ?y) = []"
    by code_simp+
  then have sym: "state (lex' nd n [] ''ab'') \<noteq> None \<and> items (lex' nd n [] ''ab'') = [] \<and>
      \<not> items_closed (lex' nd n [] ''ab'')"
    by (intro lex_never_ends [where f = LexSymbol and k = 2]) simp_all
  let ?c = "(new_lexer [] '';c'')\<lparr>state := Some LexWhitespace\<rparr>"
  have "state (run_loop nd 2 ?c) = Some LexComment"
    and "length (input (run_loop nd 2 ?c)) \<le> pos (run_loop nd 2 ?c)"
    and "items (run_loop nd 2 ?c) = []"
    by code_simp+
  then have com: "state (lex' nd n [] '';c'') \<noteq> None \<and> items (lex' nd n [] '';c'') = [] \<and>
      \<not> items_closed (lex' nd n [] '';c'')"
    by (intro lex_never_ends [where f = LexComment and k = 2]) simp_all
  from str waits sym com show ?thesis by simp
qed

text \<open>
  C5 (the code at the failing inputs). \<^verbatim>\<open>lexCloseVect\<close> decrements \<^verbatim>\<open>vectDepth\<close> and then
  tests \<^verbatim>\<open>parenDepth\<close>, and the end-of-input case of \<^verbatim>\<open>lexWhitespace\<close> tests \<^verbatim>\<open>parenDepth\<close>
  only. So on the input \<^verbatim>\<open>]\<close> (newline-terminated) the vector depth becomes \<open>-1\<close> and the
  lexer sends vector-close and end-of-input, no error item; on the input \<^verbatim>\<open>[\<close> it ends
  with vector depth \<open>1\<close> and sends vector-open and end-of-input, no error item.
\<close>

theorem vector_depth_unchecked:
  "(let l = lex' Nd_none 50 [] ('']'' @ [CHR 0x0A])
    in state l = None \<and> vectDepth l = - 1 \<and> map item_typ (items l) = [T_RVECT, T_EOF]) \<and>
   (let l = lex' Nd_none 50 [] (''['' @ [CHR 0x0A])
    in state l = None \<and> vectDepth l = 1 \<and> map item_typ (items l) = [T_LVECT, T_EOF])"
  by code_simp

text \<open>
  C7 (the code at the failing input). The input \<^verbatim>\<open>(a [b)\<close> (newline-terminated) is
  tokenized without an error item and with one end-of-input item, the last one; the paren
  depth is back to zero, but the vector depth that the tokenizer tracks is still \<open>1\<close>.
\<close>

theorem vector_depth_nonzero_at_eof:
  "(let l = lex' Nd_none 50 [] (''(a [b)'' @ [CHR 0x0A])
    in state l = None \<and> parenDepth l = 0 \<and> vectDepth l = 1 \<and>
       map item_typ (items l) = [T_LPAREN, T_SYMBOL, T_LVECT, T_SYMBOL, T_RPAREN, T_EOF])"
  by code_simp

text \<open>
  C8. Once the tokenizer has sent an error item it sends nothing more: an error item in
  the channel after any number \<open>n\<close> of turns of \<^verbatim>\<open>run\<close>, on any input and for any digit
  table, is the last item there, the state is then \<^verbatim>\<open>nil\<close> (the loop has ended), and the
  channel holds the same items after any further \<open>m\<close> turns.
\<close>

theorem error_token_is_last:
  assumes "i < length (items (lex' nd n nm inp))"
    and "item_typ (items (lex' nd n nm inp) ! i) = itemError"
  shows "Suc i = length (items (lex' nd n nm inp)) \<and> state (lex' nd n nm inp) = None \<and>
         items (lex' nd (n + m) nm inp) = items (lex' nd n nm inp)"
proof -
  have t: "terminal (items (lex' nd n nm inp) ! i)"
    using assms(2) by (simp add: terminal_def)
  have last: "Suc i = length (items (lex' nd n nm inp)) \<and> state (lex' nd n nm inp) = None"
    using terminal_only_last [OF inv_items_lex assms(1) t] .
  then have "state (run_loop nd n ((new_lexer nm inp)\<lparr>state := Some LexWhitespace\<rparr>)) = None"
    by (simp add: lex'_def state_run)
  then have "run_loop nd (n + m) ((new_lexer nm inp)\<lparr>state := Some LexWhitespace\<rparr>) =
      run_loop nd n ((new_lexer nm inp)\<lparr>state := Some LexWhitespace\<rparr>)"
    by (simp add: run_loop_add run_loop_None)
  then have "items (lex' nd (n + m) nm inp) = items (lex' nd n nm inp)"
    by (simp add: lex'_def items_run)
  with last show ?thesis by simp
qed

theorem error_token_is_last_witness:
  "1 < length (items (lex' Nd_none 9 [] ''1.5x'')) \<and>
   item_typ (items (lex' Nd_none 9 [] ''1.5x'') ! 1) = itemError \<and>
   Suc 1 = length (items (lex' Nd_none 9 [] ''1.5x'')) \<and>
   state (lex' Nd_none 9 [] ''1.5x'') = None \<and>
   items (lex' Nd_none (9 + 20) [] ''1.5x'') = items (lex' Nd_none 9 [] ''1.5x'')"
proof -
  have h1: "1 < length (items (lex' Nd_none 9 [] ''1.5x''))"
    by code_simp
  have h2: "item_typ (items (lex' Nd_none 9 [] ''1.5x'') ! 1) = itemError"
    by code_simp
  show ?thesis
    using h1 h2 error_token_is_last [OF h1 h2, of 20] by simp
qed

text \<open>
  C9 (as stated, refuted). Not every \<^verbatim>\<open>)\<close> of an input that is followed by some other
  character reaches \<^verbatim>\<open>lexCloseParen\<close>. In \<^verbatim>\<open>(a "(b)c")\<close> the \<^verbatim>\<open>)\<close> before \<^verbatim>\<open>c\<close> is inside a
  string literal, and in the two lines \<^verbatim>\<open>(a ;)b\<close> and \<^verbatim>\<open>)\<close> the \<^verbatim>\<open>)\<close> before \<^verbatim>\<open>b\<close> is inside
  a comment: both inputs are tokenized to the end with no error item. In \<^verbatim>\<open>1x (a)b\<close> the
  lexer has stopped at \<^verbatim>\<open>1x\<close>, so the only item is the error of \<^verbatim>\<open>lexInt\<close>, and neither a
  list-close nor an "unimplemented" item is sent.
\<close>

theorem close_paren_rune_not_always_lexed:
  "items (lex' Nd_none 50 [] (''(a '' @ CHR 0x22 # ''(b)c'' @ CHR 0x22 # '')'' @ [CHR 0x0A])) =
     [\<lparr>item_typ = T_LPAREN, item_pos = 0, item_val = ''(''\<rparr>,
      \<lparr>item_typ = T_SYMBOL, item_pos = 1, item_val = ''a''\<rparr>,
      \<lparr>item_typ = T_STRING, item_pos = 3, item_val = CHR 0x22 # ''(b)c'' @ [CHR 0x22]\<rparr>,
      \<lparr>item_typ = T_RPAREN, item_pos = 9, item_val = '')''\<rparr>,
      \<lparr>item_typ = T_EOF, item_pos = 11, item_val = []\<rparr>] \<and>
   items (lex' Nd_none 50 [] (''(a ;)b'' @ CHR 0x0A # '')'' @ [CHR 0x0A])) =
     [\<lparr>item_typ = T_LPAREN, item_pos = 0, item_val = ''(''\<rparr>,
      \<lparr>item_typ = T_SYMBOL, item_pos = 1, item_val = ''a''\<rparr>,
      \<lparr>item_typ = T_RPAREN, item_pos = 7, item_val = '')''\<rparr>,
      \<lparr>item_typ = T_EOF, item_pos = 9, item_val = []\<rparr>] \<and>
   items (lex' Nd_none 50 [] (''1x (a)b'' @ [CHR 0x0A])) =
     [\<lparr>item_typ = itemError, item_pos = 0, item_val = ''unexpected rune in lexInt: x''\<rparr>]"
  by code_simp

text \<open>
  C9 (amended). Whenever the state function \<^verbatim>\<open>lexCloseParen\<close> runs at a paren depth that
  stays non-negative after its decrement and the next rune is none of space, tab,
  newline, \<^verbatim>\<open>(\<close>, \<^verbatim>\<open>)\<close>, \<^verbatim>\<open>[\<close>, \<^verbatim>\<open>]\<close>, \<^verbatim>\<open>;\<close> (for instance a digit, a letter, a quote
  prefix, a double quote, a carriage return or the end of input), it sends the list-close
  item and then an error item with the message "unimplemented", and returns \<^verbatim>\<open>nil\<close>. So
  whenever the loop of \<^verbatim>\<open>run\<close>, on any input after any number \<open>n\<close> of turns, is in that
  state under these conditions, the next turn ends the loop with exactly these two items
  added. The inputs \<^verbatim>\<open>(a)b\<close> and \<^verbatim>\<open>(a)'x\<close> are tokenized as list-open, identifier,
  list-close, error "unimplemented".
\<close>

theorem close_paren_then_unimplemented:
  assumes "0 \<le> parenDepth l - 1"
    and "fst (lexer_next l) \<notin>
           {SP, TAB, NL, ch CHR ''('', ch CHR '')'', ch CHR ''['', ch CHR '']'', ch CHR '';''}"
  shows "fst (lexCloseParen l) = None \<and>
     items (snd (lexCloseParen l)) =
       items l @
       [\<lparr>item_typ = T_RPAREN, item_pos = start l,
         item_val = take (pos l - start l) (drop (start l) (input l))\<rparr>,
        \<lparr>item_typ = itemError, item_pos = pos l, item_val = ''unimplemented''\<rparr>] \<and>
     (state (lex' nd n nm inp) = Some LexCloseParen \<and>
      0 \<le> parenDepth (lex' nd n nm inp) - 1 \<and>
      fst (lexer_next (lex' nd n nm inp)) \<notin>
        {SP, TAB, NL, ch CHR ''('', ch CHR '')'', ch CHR ''['', ch CHR '']'', ch CHR '';''} \<longrightarrow>
        state (lex' nd (Suc n) nm inp) = None \<and>
        items (lex' nd (Suc n) nm inp) =
          items (lex' nd n nm inp) @
          [\<lparr>item_typ = T_RPAREN, item_pos = start (lex' nd n nm inp),
            item_val = take (pos (lex' nd n nm inp) - start (lex' nd n nm inp))
                         (drop (start (lex' nd n nm inp)) inp)\<rparr>,
           \<lparr>item_typ = itemError, item_pos = pos (lex' nd n nm inp),
             item_val = ''unimplemented''\<rparr>]) \<and>
     items (lex' nd 50 [] ''(a)b'') =
       [\<lparr>item_typ = T_LPAREN, item_pos = 0, item_val = ''(''\<rparr>,
        \<lparr>item_typ = T_SYMBOL, item_pos = 1, item_val = ''a''\<rparr>,
        \<lparr>item_typ = T_RPAREN, item_pos = 2, item_val = '')''\<rparr>,
        \<lparr>item_typ = itemError, item_pos = 3, item_val = ''unimplemented''\<rparr>] \<and>
     items (lex' nd 50 [] (''(a)'' @ CHR 0x27 # ''x'')) =
       [\<lparr>item_typ = T_LPAREN, item_pos = 0, item_val = ''(''\<rparr>,
        \<lparr>item_typ = T_SYMBOL, item_pos = 1, item_val = ''a''\<rparr>,
        \<lparr>item_typ = T_RPAREN, item_pos = 2, item_val = '')''\<rparr>,
        \<lparr>item_typ = itemError, item_pos = 3, item_val = ''unimplemented''\<rparr>]"
proof -
  have call: "fst (lexCloseParen k) = None \<and>
     items (snd (lexCloseParen k)) =
       items k @
       [\<lparr>item_typ = T_RPAREN, item_pos = start k,
         item_val = take (pos k - start k) (drop (start k) (input k))\<rparr>,
        \<lparr>item_typ = itemError, item_pos = pos k, item_val = ''unimplemented''\<rparr>]"
    if "0 \<le> parenDepth k - 1"
      and "fst (lexer_next k) \<notin>
           {SP, TAB, NL, ch CHR ''('', ch CHR '')'', ch CHR ''['', ch CHR '']'', ch CHR '';''}"
    for k
  proof -
    let ?k2 = "(emit T_RPAREN k)\<lparr>parenDepth := parenDepth (emit T_RPAREN k) - 1\<rparr>"
    have "fst (lexer_next ?k2) = fst (lexer_next k)"
      by (rule lexer_next_cong) simp_all
    with that show ?thesis
      by (simp add: lexCloseParen_def Let_def split_beta errorf_def)
  qed
  have at_run: "state (lex' nd (Suc n) nm inp) = None \<and>
        items (lex' nd (Suc n) nm inp) =
          items (lex' nd n nm inp) @
          [\<lparr>item_typ = T_RPAREN, item_pos = start (lex' nd n nm inp),
            item_val = take (pos (lex' nd n nm inp) - start (lex' nd n nm inp))
                         (drop (start (lex' nd n nm inp)) inp)\<rparr>,
           \<lparr>item_typ = itemError, item_pos = pos (lex' nd n nm inp),
             item_val = ''unimplemented''\<rparr>]"
    if st: "state (lex' nd n nm inp) = Some LexCloseParen"
      and depth: "0 \<le> parenDepth (lex' nd n nm inp) - 1"
      and rune: "fst (lexer_next (lex' nd n nm inp)) \<notin>
        {SP, TAB, NL, ch CHR ''('', ch CHR '')'', ch CHR ''['', ch CHR '']'', ch CHR '';''}"
  proof -
    let ?l0 = "(new_lexer nm inp)\<lparr>state := Some LexWhitespace\<rparr>"
    let ?k = "run_loop nd n ?l0"
    have stk: "state ?k = Some LexCloseParen"
      using st by (simp add: lex'_def state_run)
    then have k: "lex' nd n nm inp = ?k"
      by (simp add: lex'_def run_def Let_def)
    have inp: "input ?k = inp"
      by (simp add: run_loop_frame new_lexer_def)
    have "run_loop nd (Suc n) ?l0 = turn nd ?k"
      by (rule run_loop_Suc_turn)
    with stk have next_turn: "run_loop nd (Suc n) ?l0 =
        (snd (lexCloseParen ?k))\<lparr>state := fst (lexCloseParen ?k)\<rparr>"
      by (simp add: turn_def split_beta)
    from call [of ?k] depth rune k
    have "fst (lexCloseParen ?k) = None \<and>
      items (snd (lexCloseParen ?k)) =
        items ?k @
        [\<lparr>item_typ = T_RPAREN, item_pos = start ?k,
          item_val = take (pos ?k - start ?k) (drop (start ?k) (input ?k))\<rparr>,
         \<lparr>item_typ = itemError, item_pos = pos ?k, item_val = ''unimplemented''\<rparr>]"
      by simp
    with next_turn inp have
      "state (run_loop nd (Suc n) ?l0) = None \<and>
       items (run_loop nd (Suc n) ?l0) =
        items ?k @
        [\<lparr>item_typ = T_RPAREN, item_pos = start ?k,
          item_val = take (pos ?k - start ?k) (drop (start ?k) inp)\<rparr>,
         \<lparr>item_typ = itemError, item_pos = pos ?k, item_val = ''unimplemented''\<rparr>]"
      by simp
    then show ?thesis
      unfolding k by (simp add: lex'_def items_run state_run)
  qed
  have ex1: "items (lex' nd 50 [] ''(a)b'') =
       [\<lparr>item_typ = T_LPAREN, item_pos = 0, item_val = ''(''\<rparr>,
        \<lparr>item_typ = T_SYMBOL, item_pos = 1, item_val = ''a''\<rparr>,
        \<lparr>item_typ = T_RPAREN, item_pos = 2, item_val = '')''\<rparr>,
        \<lparr>item_typ = itemError, item_pos = 3, item_val = ''unimplemented''\<rparr>]"
    by code_simp
  have ex2: "items (lex' nd 50 [] (''(a)'' @ CHR 0x27 # ''x'')) =
       [\<lparr>item_typ = T_LPAREN, item_pos = 0, item_val = ''(''\<rparr>,
        \<lparr>item_typ = T_SYMBOL, item_pos = 1, item_val = ''a''\<rparr>,
        \<lparr>item_typ = T_RPAREN, item_pos = 2, item_val = '')''\<rparr>,
        \<lparr>item_typ = itemError, item_pos = 3, item_val = ''unimplemented''\<rparr>]"
    by code_simp
  from call [OF assms] at_run ex1 ex2 show ?thesis
    by blast
qed

theorem close_paren_then_unimplemented_witness:
  "0 \<le> parenDepth (lex' Nd_none 3 [] ''(a)b'') - 1 \<and>
   state (lex' Nd_none 3 [] ''(a)b'') = Some LexCloseParen \<and>
   fst (lexer_next (lex' Nd_none 3 [] ''(a)b'')) = ch CHR ''b'' \<and>
   fst (lexCloseParen (lex' Nd_none 3 [] ''(a)b'')) = None \<and>
   map item_typ (items (snd (lexCloseParen (lex' Nd_none 3 [] ''(a)b'')))) =
     [T_LPAREN, T_SYMBOL, T_RPAREN, itemError] \<and>
   state (lex' Nd_none (Suc 3) [] ''(a)b'') = None \<and>
   map item_typ (items (lex' Nd_none (Suc 3) [] ''(a)b'')) =
     [T_LPAREN, T_SYMBOL, T_RPAREN, itemError]"
proof -
  let ?l = "lex' Nd_none 3 [] ''(a)b''"
  have h1: "0 \<le> parenDepth ?l - 1"
    by code_simp
  have st: "state ?l = Some LexCloseParen"
    by code_simp
  have nx: "fst (lexer_next ?l) = ch CHR ''b''"
    by code_simp
  have h2: "fst (lexer_next ?l) \<notin>
           {SP, TAB, NL, ch CHR ''('', ch CHR '')'', ch CHR ''['', ch CHR '']'', ch CHR '';''}"
    by (simp add: nx)
  have its: "map item_typ (items ?l) = [T_LPAREN, T_SYMBOL]"
    by code_simp
  show ?thesis
    using close_paren_then_unimplemented [OF h1 h2, of Nd_none 3 "[]" "''(a)b''"] h1 st nx its
    by simp
qed




section \<open>The claims about the reader\<close>

text \<open>
  C1 (as stated, refuted). Reading the line \<^verbatim>\<open>[1 [2 3]]\<close> does not succeed: the lexer
  sends an error item at the \<^verbatim>\<open>]\<close> that follows \<^verbatim>\<open>3\<close>, and \<^verbatim>\<open>parse\<close> panics on it.
\<close>

theorem parse_nested_vector_panics:
  "main_parse Nd_none 50 ''[1 [2 3]]'' = Inl (Panic ''syntax error'')"
  by code_simp

text \<open>
  C1 (amended). Reading the line \<^verbatim>\<open>[1 [2 3 ] ]\<close>, where white space precedes each closing
  bracket, succeeds and yields a flat top-level sequence of seven atoms in source order:
  each bracket is an atom of empty \<^verbatim>\<open>Type\<close> whose \<^verbatim>\<open>Value\<close> is the bracket's text, and the
  integers are \<^verbatim>\<open>INT\<close> atoms. In general \<^verbatim>\<open>parse\<close> appends a vector-open or vector-close
  item to the sequence it is building as such an atom and goes on at the same level: the
  reader builds no vector node and does not nest on brackets.
\<close>

theorem parse_brackets_flat:
  "main_parse Nd_none 50 ''[1 [2 3 ] ]'' =
     Inr [AstToken \<lparr>Type = [], Value = ''[''\<rparr>,
          AstToken \<lparr>Type = ''INT'', Value = ''1''\<rparr>,
          AstToken \<lparr>Type = [], Value = ''[''\<rparr>,
          AstToken \<lparr>Type = ''INT'', Value = ''2''\<rparr>,
          AstToken \<lparr>Type = ''INT'', Value = ''3''\<rparr>,
          AstToken \<lparr>Type = [], Value = '']''\<rparr>,
          AstToken \<lparr>Type = [], Value = '']''\<rparr>] \<and>
   parse c (\<lparr>item_typ = T_LVECT, item_pos = i, item_val = v\<rparr> # ts) p =
     parse c ts (p @ [AstToken \<lparr>Type = [], Value = v\<rparr>]) \<and>
   parse c (\<lparr>item_typ = T_RVECT, item_pos = i, item_val = v\<rparr> # ts) p =
     parse c ts (p @ [AstToken \<lparr>Type = [], Value = v\<rparr>])"
proof -
  have "main_parse Nd_none 50 ''[1 [2 3 ] ]'' =
     Inr [AstToken \<lparr>Type = [], Value = ''[''\<rparr>,
          AstToken \<lparr>Type = ''INT'', Value = ''1''\<rparr>,
          AstToken \<lparr>Type = [], Value = ''[''\<rparr>,
          AstToken \<lparr>Type = ''INT'', Value = ''2''\<rparr>,
          AstToken \<lparr>Type = ''INT'', Value = ''3''\<rparr>,
          AstToken \<lparr>Type = [], Value = '']''\<rparr>,
          AstToken \<lparr>Type = [], Value = '']''\<rparr>]"
    by code_simp
  then show ?thesis
    by (simp add: atom_of_def)
qed

text \<open>
  C3 (as stated, refuted). Reading the line \<^verbatim>\<open>'(1 2)\<close> yields two top-level elements, an
  atom of empty \<^verbatim>\<open>Type\<close> and empty \<^verbatim>\<open>Value\<close> for the quote item and then the list: the
  list is the sibling of the quote, not the inner form of a quoted node.
\<close>

theorem parse_quote_not_wrapped:
  "main_parse Nd_none 50 (CHR 0x27 # ''(1 2)'') =
     Inr [AstToken \<lparr>Type = [], Value = []\<rparr>,
          Slice [AstToken \<lparr>Type = ''INT'', Value = ''1''\<rparr>,
                 AstToken \<lparr>Type = ''INT'', Value = ''2''\<rparr>]]"
  by code_simp

text \<open>
  C3 (amended). Every quote, quasiquote, unquote or unquote-splice item in the stream is
  appended to the sequence that \<^verbatim>\<open>parse\<close> is building as an atom of empty \<^verbatim>\<open>Type\<close> that
  carries the item's text, and \<^verbatim>\<open>parse\<close> goes on with the next item at the same level, so
  that the form which follows the prefix becomes its next sibling; for instance the line
  \<^verbatim>\<open>`(a ,b)\<close> reads as the atom of the quasiquote followed by a list that holds \<^verbatim>\<open>a\<close>, the
  atom of the unquote and \<^verbatim>\<open>b\<close>.
\<close>

theorem parse_prefix_is_sibling_atom:
  "parse c (\<lparr>item_typ = T_QUOTE, item_pos = i, item_val = v\<rparr> # ts) p =
     parse c ts (p @ [AstToken \<lparr>Type = [], Value = v\<rparr>]) \<and>
   parse c (\<lparr>item_typ = T_QUASIQUOTE, item_pos = i, item_val = v\<rparr> # ts) p =
     parse c ts (p @ [AstToken \<lparr>Type = [], Value = v\<rparr>]) \<and>
   parse c (\<lparr>item_typ = T_UNQUOTE, item_pos = i, item_val = v\<rparr> # ts) p =
     parse c ts (p @ [AstToken \<lparr>Type = [], Value = v\<rparr>]) \<and>
   parse c (\<lparr>item_typ = T_UNQUOTESPLICE, item_pos = i, item_val = v\<rparr> # ts) p =
     parse c ts (p @ [AstToken \<lparr>Type = [], Value = v\<rparr>]) \<and>
   main_parse Nd_none 50 (CHR 0x60 # ''(a ,b)'') =
     Inr [AstToken \<lparr>Type = [], Value = []\<rparr>,
          Slice [AstToken \<lparr>Type = ''IDENT'', Value = ''a''\<rparr>,
                 AstToken \<lparr>Type = [], Value = []\<rparr>,
                 AstToken \<lparr>Type = ''IDENT'', Value = ''b''\<rparr>]]"
proof -
  have "main_parse Nd_none 50 (CHR 0x60 # ''(a ,b)'') =
     Inr [AstToken \<lparr>Type = [], Value = []\<rparr>,
          Slice [AstToken \<lparr>Type = ''IDENT'', Value = ''a''\<rparr>,
                 AstToken \<lparr>Type = [], Value = []\<rparr>,
                 AstToken \<lparr>Type = ''IDENT'', Value = ''b''\<rparr>]]"
    by code_simp
  then show ?thesis
    by (simp add: atom_of_def)
qed

text \<open>
  C4 (the code at the failing input). On the line \<^verbatim>\<open>)\<close> the lexer sends the list-close
  item and then the error item "unexpected close paren"; \<^verbatim>\<open>parse\<close> returns on the
  list-close item, before it has received the error item, and so hands its caller the
  forms read so far (none) as a normal result. On the line \<^verbatim>\<open>(a))\<close> it returns the one
  list read so far in the same way: at any level, \<^verbatim>\<open>parse\<close> answers a list-close item by
  returning what it has built.
\<close>

theorem unexpected_close_paren_returns_silently:
  "items (lex' Nd_none 50 [] ('')'' @ [CHR 0x0A])) =
     [\<lparr>item_typ = T_RPAREN, item_pos = 0, item_val = '')''\<rparr>,
      \<lparr>item_typ = T_INVALID, item_pos = 1, item_val = ''unexpected close paren''\<rparr>] \<and>
   main_parse Nd_none 50 '')'' = Inr [] \<and>
   main_parse Nd_none 50 ''(a))'' = Inr [Slice [AstToken \<lparr>Type = ''IDENT'', Value = ''a''\<rparr>]] \<and>
   parse c (\<lparr>item_typ = T_RPAREN, item_pos = i, item_val = v\<rparr> # ts) p = Inr (p, ts)"
proof -
  have "items (lex' Nd_none 50 [] ('')'' @ [CHR 0x0A])) =
     [\<lparr>item_typ = T_RPAREN, item_pos = 0, item_val = '')''\<rparr>,
      \<lparr>item_typ = T_INVALID, item_pos = 1, item_val = ''unexpected close paren''\<rparr>]"
    and "main_parse Nd_none 50 '')'' = Inr []"
    and "main_parse Nd_none 50 ''(a))'' =
      Inr [Slice [AstToken \<lparr>Type = ''IDENT'', Value = ''a''\<rparr>]]"
    by code_simp+
  then show ?thesis by simp
qed

text \<open>The tree that \<^verbatim>\<open>parse\<close> returns, written back as a bracket sequence, is the
  sequence of the items it consumed, in their order.\<close>

lemma parse_unparse:
  "parse c ts p = Inr (q, rest) \<Longrightarrow>
     \<exists>used fin. ts = used @ fin # rest \<and> (item_typ fin = T_EOF \<or> item_typ fin = T_RPAREN) \<and>
       concat (map unparse q) = concat (map unparse p) @ map shape_of used"
proof (induction c ts p arbitrary: q rest rule: parse.induct)
  case (1 c p)
  then show ?case by (simp split: if_splits)
next
  case (2 c t ts p)
  consider (stop) "item_typ t = T_EOF \<or> item_typ t = T_RPAREN"
    | (err) "item_typ t = T_INVALID"
    | (opn) "item_typ t = T_LPAREN"
    | (atom) "item_typ t \<noteq> T_EOF" "item_typ t \<noteq> T_RPAREN" "item_typ t \<noteq> T_INVALID"
        "item_typ t \<noteq> T_LPAREN"
    by blast
  then show ?case
  proof cases
    case stop
    with "2.prems" have "q = p" and "rest = ts"
      by (auto split: if_splits)
    with stop have "t # ts = [] @ t # rest \<and> (item_typ t = T_EOF \<or> item_typ t = T_RPAREN) \<and>
        concat (map unparse q) = concat (map unparse p) @ map shape_of []"
      by simp
    then show ?thesis by blast
  next
    case err
    with "2.prems" show ?thesis by simp
  next
    case opn
    with "2.prems" obtain q1 ts1 where
      inner: "parse c ts [] = Inr (q1, ts1)" and
      outer: "parse c ts1 (p @ [Slice q1]) = Inr (q, rest)"
      by (auto split: sum.splits)
    from "2.IH"(1) [OF _ _ opn inner] opn obtain u1 f1 where
      s1: "ts = u1 @ f1 # ts1" and f1: "item_typ f1 = T_EOF \<or> item_typ f1 = T_RPAREN" and
      e1: "concat (map unparse q1) = map shape_of u1"
      by auto
    from "2.IH"(2) [OF _ _ opn inner refl outer] opn obtain u2 f2 where
      s2: "ts1 = u2 @ f2 # rest" and f2: "item_typ f2 = T_EOF \<or> item_typ f2 = T_RPAREN" and
      e2: "concat (map unparse q) = concat (map unparse (p @ [Slice q1])) @ map shape_of u2"
      by auto
    have sf1: "shape_of f1 = Close"
      using f1 by (auto simp: shape_of_def)
    have "t # ts = (t # u1 @ f1 # u2) @ f2 # rest"
      using s1 s2 by simp
    moreover have "concat (map unparse q) =
        concat (map unparse p) @ map shape_of (t # u1 @ f1 # u2)"
      using e1 e2 sf1 opn by (simp add: shape_of_def)
    ultimately show ?thesis using f2 by blast
  next
    case atom
    with "2.prems" have rec: "parse c ts (p @ [AstToken (atom_of t)]) = Inr (q, rest)"
      by simp
    from "2.IH"(3) [OF atom(1) atom(3) atom(4) atom(2) rec] obtain u f where
      s: "ts = u @ f # rest" and f: "item_typ f = T_EOF \<or> item_typ f = T_RPAREN" and
      e: "concat (map unparse q) =
            concat (map unparse (p @ [AstToken (atom_of t)])) @ map shape_of u"
      by auto
    have "t # ts = (t # u) @ f # rest"
      using s by simp
    moreover have "concat (map unparse q) = concat (map unparse p) @ map shape_of (t # u)"
      using e atom by (simp add: shape_of_def)
    ultimately show ?thesis using f by blast
  qed
qed

text \<open>
  C6. Reading the line \<^verbatim>\<open>(a b c)\<close> (\<^verbatim>\<open>main\<close> appends the newline) yields exactly one
  top-level list that holds the three identifier atoms \<^verbatim>\<open>a\<close>, \<^verbatim>\<open>b\<close>, \<^verbatim>\<open>c\<close> in that order.
  In general, whenever \<^verbatim>\<open>parse\<close> returns, the tree it returns, written back as a bracket
  sequence, is what it was given followed by the items it consumed, in source order with
  their nesting: at every level the children are in source left-to-right order.
\<close>

theorem parse_keeps_source_order:
  "main_parse nd 50 ''(a b c)'' =
     Inr [Slice [AstToken \<lparr>Type = ''IDENT'', Value = ''a''\<rparr>,
                 AstToken \<lparr>Type = ''IDENT'', Value = ''b''\<rparr>,
                 AstToken \<lparr>Type = ''IDENT'', Value = ''c''\<rparr>]] \<and>
   (parse c ts p = Inr (q, rest) \<longrightarrow>
      (\<exists>used fin. ts = used @ fin # rest \<and> (item_typ fin = T_EOF \<or> item_typ fin = T_RPAREN) \<and>
         concat (map unparse q) = concat (map unparse p) @ map shape_of used))"
proof -
  have "main_parse nd 50 ''(a b c)'' =
     Inr [Slice [AstToken \<lparr>Type = ''IDENT'', Value = ''a''\<rparr>,
                 AstToken \<lparr>Type = ''IDENT'', Value = ''b''\<rparr>,
                 AstToken \<lparr>Type = ''IDENT'', Value = ''c''\<rparr>]]"
    by code_simp
  then show ?thesis
    using parse_unparse [of c ts p q rest] by blast
qed

theorem parse_keeps_source_order_witness:
  "parse True (items (lex' Nd_none 50 [] (''(a (b) c)'' @ [CHR 0x0A]))) [] =
     Inr ([Slice [AstToken \<lparr>Type = ''IDENT'', Value = ''a''\<rparr>,
                  Slice [AstToken \<lparr>Type = ''IDENT'', Value = ''b''\<rparr>],
                  AstToken \<lparr>Type = ''IDENT'', Value = ''c''\<rparr>]], []) \<and>
   (\<exists>used fin. items (lex' Nd_none 50 [] (''(a (b) c)'' @ [CHR 0x0A])) = used @ fin # [] \<and>
      (item_typ fin = T_EOF \<or> item_typ fin = T_RPAREN) \<and>
      concat (map unparse
        [Slice [AstToken \<lparr>Type = ''IDENT'', Value = ''a''\<rparr>,
                Slice [AstToken \<lparr>Type = ''IDENT'', Value = ''b''\<rparr>],
                AstToken \<lparr>Type = ''IDENT'', Value = ''c''\<rparr>]]) =
      concat (map unparse []) @ map shape_of used)"
proof -
  have h: "parse True (items (lex' Nd_none 50 [] (''(a (b) c)'' @ [CHR 0x0A]))) [] =
     Inr ([Slice [AstToken \<lparr>Type = ''IDENT'', Value = ''a''\<rparr>,
                  Slice [AstToken \<lparr>Type = ''IDENT'', Value = ''b''\<rparr>],
                  AstToken \<lparr>Type = ''IDENT'', Value = ''c''\<rparr>]], [])"
    by code_simp
  show ?thesis
    using h parse_keeps_source_order [THEN conjunct2, rule_format, OF h] by blast
qed

end
